theory Spec2Isabelle
  imports Complex_Main "HOL-Library.Sublist" "HOL-Library.Multiset"
begin

section \<open>Text primitives of the Python runtime\<close>

text \<open>
  The food recogniser of \<^verbatim>\<open>food_tracker/ai.py\<close> works on Python \<^verbatim>\<open>str\<close> values. A
  string is modelled as a list of characters, and a character of type \<^typ>\<open>char\<close> stands
  for the Unicode code point of the same number, so the model covers the texts whose
  code points lie in U+0000 .. U+00FF (ASCII and the Latin-1 supplement). The three
  tables below are those of Python 3 on that range. Python floats are modelled as
  real numbers: every statement about weights and confidences is one of exact
  arithmetic, rounding is not modelled.
\<close>

definition cp :: "char \<Rightarrow> nat" where
  "cp c = of_char c"

text \<open>\<^verbatim>\<open>str.isspace\<close>, which decides what \<^verbatim>\<open>str.strip()\<close> removes.\<close>

definition py_isspace :: "char \<Rightarrow> bool" where
  "py_isspace c = ((9 \<le> cp c \<and> cp c \<le> 13) \<or> (28 \<le> cp c \<and> cp c \<le> 32)
     \<or> cp c = 133 \<or> cp c = 160)"

definition py_strip :: "string \<Rightarrow> string" where
  "py_strip s = rev (dropWhile py_isspace (rev (dropWhile py_isspace s)))"

text \<open>\<^verbatim>\<open>str.lower\<close>: every character of the range lowers to a single character.\<close>

definition py_lower_char :: "char \<Rightarrow> char" where
  "py_lower_char c =
     (if (65 \<le> cp c \<and> cp c \<le> 90) \<or> (192 \<le> cp c \<and> cp c \<le> 214) \<or> (216 \<le> cp c \<and> cp c \<le> 222)
      then char_of (cp c + 32) else c)"

definition py_lower :: "string \<Rightarrow> string" where
  "py_lower s = map py_lower_char s"

text \<open>
  The class \<^verbatim>\<open>\w\<close> of a \<^verbatim>\<open>str\<close> pattern: the underscore and every character for
  which \<^verbatim>\<open>str.isalnum\<close> holds, which beyond ASCII takes in the letters, superscript
  digits and fractions of Latin-1.
\<close>

definition re_word :: "char \<Rightarrow> bool" where
  "re_word c = ((48 \<le> cp c \<and> cp c \<le> 57) \<or> (65 \<le> cp c \<and> cp c \<le> 90) \<or> cp c = 95
     \<or> (97 \<le> cp c \<and> cp c \<le> 122) \<or> cp c = 170 \<or> cp c = 178 \<or> cp c = 179 \<or> cp c = 181
     \<or> cp c = 185 \<or> cp c = 186 \<or> (188 \<le> cp c \<and> cp c \<le> 190) \<or> (192 \<le> cp c \<and> cp c \<le> 214)
     \<or> (216 \<le> cp c \<and> cp c \<le> 246) \<or> (248 \<le> cp c \<and> cp c \<le> 255))"

text \<open>
  \<^verbatim>\<open>re.findall\<close> for a pattern of the shape \<^verbatim>\<open>[class]+\<close>: scanning from the left, a
  character outside the class is skipped, and at a character of the class the greedy
  \<^verbatim>\<open>+\<close> takes the longest run, which is reported; the scan resumes behind it.
\<close>

function findall_class :: "(char \<Rightarrow> bool) \<Rightarrow> string \<Rightarrow> string list" where
  "findall_class p [] = []"
| "findall_class p (c # cs) =
     (if p c then (c # takeWhile p cs) # findall_class p (dropWhile p cs)
      else findall_class p cs)"
  by pat_completeness auto
termination
  by (relation "measure (\<lambda>(p, s). length s)") (auto simp: length_dropWhile_le less_Suc_eq_le)

section \<open>The vectoriser\<close>

text \<open>\<^verbatim>\<open>_TOKEN_RE = re.compile(r"[\w']+")\<close>\<close>

definition TOKEN_RE :: "char \<Rightarrow> bool" where
  "TOKEN_RE c = (re_word c \<or> c = CHR 0x27)"

definition tokenize :: "string \<Rightarrow> string list" where
  "tokenize text = findall_class TOKEN_RE (py_lower text)"

text \<open>
  A Python \<^verbatim>\<open>dict\<close> is an association list in insertion order whose keys are distinct;
  \<^verbatim>\<open>d.get(k, default)\<close> and \<^verbatim>\<open>d[k] = v\<close> are the two operations the counting loop uses.
\<close>

definition dict_get :: "('k \<times> 'v) list \<Rightarrow> 'k \<Rightarrow> 'v \<Rightarrow> 'v" where
  "dict_get d k dflt = (case map_of d k of None \<Rightarrow> dflt | Some v \<Rightarrow> v)"

definition dict_set :: "('k \<times> 'v) list \<Rightarrow> 'k \<Rightarrow> 'v \<Rightarrow> ('k \<times> 'v) list" where
  "dict_set d k v =
     (if k \<in> fst ` set d then map (\<lambda>(k', v'). if k' = k then (k', v) else (k', v')) d
      else d @ [(k, v)])"

text \<open>
  \<^verbatim>\<open>Counter(iterable)\<close> runs \<^verbatim>\<open>self[elem] = self.get(elem, 0) + 1\<close> over the elements.
\<close>

definition Counter :: "string list \<Rightarrow> (string \<times> nat) list" where
  "Counter elems = foldl (\<lambda>d elem. dict_set d elem (dict_get d elem 0 + 1)) [] elems"

type_synonym vector = "(string \<times> real) list"

text \<open>
  \<^verbatim>\<open>norm = math.sqrt(sum(value * value for value in vector.values())) or 1.0\<close>: the
  \<^verbatim>\<open>or\<close> replaces a square root that is zero.
\<close>

definition normalise :: "vector \<Rightarrow> vector" where
  "normalise vector =
     (let s = sqrt (sum_list (map (\<lambda>(key, value). value * value) vector));
          norm = (if s = 0 then 1 else s)
      in map (\<lambda>(key, value). (key, value / norm)) vector)"

text \<open>
  \<^verbatim>\<open>common = set(a) & set(b)\<close>, then the sum of \<^verbatim>\<open>a[key] * b[key]\<close> over it. A key of
  \<open>common\<close> is a key of both dictionaries, so neither lookup can fail.
\<close>

definition cosine_similarity :: "vector \<Rightarrow> vector \<Rightarrow> real" where
  "cosine_similarity a b =
     (let common = set (map fst a) \<inter> set (map fst b)
      in (\<Sum>key\<in>common. the (map_of a key) * the (map_of b key)))"

text \<open>\<^verbatim>\<open>EmbeddingModel.encode\<close>: the counts of a text's tokens, normalised, text by text.\<close>

definition encode :: "string list \<Rightarrow> vector list" where
  "encode texts =
     map (\<lambda>text. normalise (map (\<lambda>(key, n). (key, real n)) (Counter (tokenize text)))) texts"

section \<open>The recognition engine\<close>

text \<open>
  \<^verbatim>\<open>FoodItem\<close> is imported from \<^verbatim>\<open>models.py\<close>; its fields are those the engine passes
  to its constructor. The amounts of the macronutrients are numbers of a type \<open>'n\<close>
  that the engine only ever formats into text.
\<close>

record 'n FoodItem =
  name :: string
  serving_size :: string
  calories :: real
  macronutrients :: "(string \<times> 'n) list"
  aliases :: "string list"

record 'n FoodRecognitionEngine =
  reference_items :: "'n FoodItem list"
  reference_vectors :: "vector list"

datatype error = FileNotFoundError | KeyError string

text \<open>\<^verbatim>\<open>sep.join(parts)\<close>\<close>

fun py_join :: "string \<Rightarrow> string list \<Rightarrow> string" where
  "py_join sep [] = []"
| "py_join sep [x] = x"
| "py_join sep (x # y # ys) = x @ sep @ py_join sep (y # ys)"

text \<open>
  \<^verbatim>\<open>_item_representation\<close>; \<open>fmt\<close> is the text an f-string gives for an amount
  (\<^verbatim>\<open>f"{nutrient}:{amount}"\<close>), a function of the Python runtime.
\<close>

definition item_representation :: "('n \<Rightarrow> string) \<Rightarrow> 'n FoodItem \<Rightarrow> string" where
  "item_representation fmt item =
     (let aliases' = py_join '', '' (aliases item);
          macros = py_join '', ''
            (map (\<lambda>(nutrient, amount). nutrient @ '':'' @ fmt amount) (macronutrients item))
      in name item @ '' serving '' @ serving_size item @ '' '' @ aliases' @ '' '' @ macros)"

record 'n RecognisedFood =
  item :: "'n FoodItem"
  confidence :: real

text \<open>
  A record of the reference dataset, as \<^verbatim>\<open>json.load\<close> hands it over: a dictionary in
  which each of the five fields is present or not.
\<close>

record 'n json_record =
  rec_name :: "string option"
  rec_serving_size :: "string option"
  rec_calories :: "real option"
  rec_macronutrients :: "(string \<times> 'n) list option"
  rec_aliases :: "string list option"

text \<open>
  \<^verbatim>\<open>_load_reference\<close>: \<^verbatim>\<open>record["name"]\<close> raises \<^verbatim>\<open>KeyError\<close> on a record without the
  key, the other four fields are read with \<^verbatim>\<open>record.get(field, default)\<close>. The first
  record that raises ends the loop.
\<close>

fun load_reference :: "'n json_record list \<Rightarrow> error + 'n FoodItem list" where
  "load_reference [] = Inr []"
| "load_reference (record # data) =
     (case rec_name record of
        None \<Rightarrow> Inl (KeyError ''name'')
      | Some n \<Rightarrow>
          (case load_reference data of
             Inl e \<Rightarrow> Inl e
           | Inr items \<Rightarrow>
               Inr (\<lparr>name = n,
                     serving_size = (case rec_serving_size record of None \<Rightarrow> ''1 serving'' | Some s \<Rightarrow> s),
                     calories = (case rec_calories record of None \<Rightarrow> 0 | Some c \<Rightarrow> c),
                     macronutrients = (case rec_macronutrients record of None \<Rightarrow> [] | Some m \<Rightarrow> m),
                     aliases = (case rec_aliases record of None \<Rightarrow> [] | Some a \<Rightarrow> a)\<rparr> # items)))"

text \<open>
  \<^verbatim>\<open>__init__\<close>: the reference file is \<open>None\<close> when no file exists at the path, and
  its parsed content otherwise.
\<close>

definition engine_init ::
  "('n \<Rightarrow> string) \<Rightarrow> 'n json_record list option \<Rightarrow> error + 'n FoodRecognitionEngine" where
  "engine_init fmt reference =
     (case reference of
        None \<Rightarrow> Inl FileNotFoundError
      | Some data \<Rightarrow>
          (case load_reference data of
             Inl e \<Rightarrow> Inl e
           | Inr items \<Rightarrow>
               Inr \<lparr>reference_items = items,
                    reference_vectors = encode (map (item_representation fmt) items)\<rparr>))"

text \<open>
  The loop of \<^verbatim>\<open>recognise\<close> over \<^verbatim>\<open>zip(self._reference_items, self._reference_vectors)\<close>.
  \<open>matches\<close> stands for the method \<^verbatim>\<open>FoodItem.matches\<close> of \<^verbatim>\<open>models.py\<close>.
\<close>

definition score_items ::
  "('n FoodItem \<Rightarrow> string \<Rightarrow> bool) \<Rightarrow> 'n FoodRecognitionEngine \<Rightarrow> string \<Rightarrow> 'n RecognisedFood list" where
  "score_items matches e description =
     (let description_vector = encode [description] ! 0
      in map (\<lambda>(item, vector).
                let c = cosine_similarity description_vector vector
                in \<lparr>item = item, confidence = (if matches item description then max c 0.99 else c)\<rparr>)
             (zip (reference_items e) (reference_vectors e)))"

text \<open>
  \<^verbatim>\<open>list.sort(key=..., reverse=True)\<close> is the stable ascending sort between two
  reversals, which keeps elements of equal key in their original order.
\<close>

definition py_sort_reverse :: "('a \<Rightarrow> real) \<Rightarrow> 'a list \<Rightarrow> 'a list" where
  "py_sort_reverse key xs = rev (sort_key key (rev xs))"

text \<open>\<^verbatim>\<open>xs[:k]\<close>: a negative \<open>k\<close> counts from the end of the list.\<close>

definition py_slice_to :: "'a list \<Rightarrow> int \<Rightarrow> 'a list" where
  "py_slice_to xs k = (if 0 \<le> k then take (nat k) xs else take (nat (int (length xs) + k)) xs)"

definition recognise ::
  "('n FoodItem \<Rightarrow> string \<Rightarrow> bool) \<Rightarrow> 'n FoodRecognitionEngine \<Rightarrow> string \<Rightarrow> int \<Rightarrow> 'n RecognisedFood list" where
  "recognise matches e description top_k =
     (if py_strip description = [] then []
      else py_slice_to (py_sort_reverse confidence (score_items matches e description)) top_k)"

definition add_custom_item ::
  "('n \<Rightarrow> string) \<Rightarrow> 'n FoodRecognitionEngine \<Rightarrow> 'n FoodItem \<Rightarrow> 'n FoodRecognitionEngine" where
  "add_custom_item fmt e item' =
     e\<lparr>reference_items := reference_items e @ [item'],
       reference_vectors := reference_vectors e @ [encode [item_representation fmt item'] ! 0]\<rparr>"

section \<open>Notions of the specification\<close>

text \<open>The count vector that \<^verbatim>\<open>encode\<close> hands to \<^verbatim>\<open>_normalise\<close> for one text.\<close>

definition term_counts :: "string \<Rightarrow> vector" where
  "term_counts tx = map (\<lambda>(key, n). (key, real n)) (Counter (tokenize tx))"

text \<open>
  The tokenizer as the specification words it: the text is lowercased, every character
  outside \<^verbatim>\<open>[a-z0-9_']\<close> is a separator, and the tokens are the non-empty pieces
  between separators, in order.
\<close>

definition spec_token_char :: "char \<Rightarrow> bool" where
  "spec_token_char c = ((97 \<le> cp c \<and> cp c \<le> 122) \<or> (48 \<le> cp c \<and> cp c \<le> 57)
     \<or> cp c = 95 \<or> cp c = 39)"

fun split_at_separators :: "(char \<Rightarrow> bool) \<Rightarrow> string \<Rightarrow> string list" where
  "split_at_separators p [] = [[]]"
| "split_at_separators p (c # cs) =
     (if p c then (case split_at_separators p cs of r # rs \<Rightarrow> (c # r) # rs | [] \<Rightarrow> [[c]])
      else [] # split_at_separators p cs)"

definition tokenize_spec :: "string \<Rightarrow> string list" where
  "tokenize_spec tx = filter (\<lambda>t. t \<noteq> []) (split_at_separators spec_token_char (py_lower tx))"

text \<open>The catalog invariant: the vectors are the encodings of the items' representations.\<close>

definition catalog_aligned :: "('n \<Rightarrow> string) \<Rightarrow> 'n FoodRecognitionEngine \<Rightarrow> bool" where
  "catalog_aligned fmt e =
     (reference_vectors e = encode (map (item_representation fmt) (reference_items e)))"

text \<open>\<^verbatim>\<open>q in s\<close> on strings: \<open>q\<close> occurs in \<open>s\<close> as a contiguous piece.\<close>

definition py_in :: "string \<Rightarrow> string \<Rightarrow> bool" where
  "py_in q s = list_ex (prefix q) (suffixes s)"

text \<open>
  Modelled from the spec: \<^verbatim>\<open>FoodItem.matches\<close> of \<^verbatim>\<open>models.py\<close>, a file that is not
  among the sources. The specification gives the predicate as: an item matches a text
  if, case-insensitively, the text equals or is contained within the item's name, or
  equals or is contained within any alias. The theorems on \<open>recognise\<close> hold for
  every matching predicate; this one serves where a concrete one is needed.
\<close>

definition FoodItem_matches :: "'n FoodItem \<Rightarrow> string \<Rightarrow> bool" where
  "FoodItem_matches it tx =
     (py_in (py_lower tx) (py_lower (name it))
      \<or> list_ex (\<lambda>alias. py_in (py_lower tx) (py_lower alias)) (aliases it))"

text \<open>The decimal text of a natural number, which is how Python formats such an amount.\<close>

fun str_nat :: "nat \<Rightarrow> string" where
  "str_nat n = (if n < 10 then [char_of (48 + n)] else str_nat (n div 10) @ [char_of (48 + n mod 10)])"

section \<open>A small reference dataset\<close>

definition apple_record :: "nat json_record" where
  "apple_record = \<lparr>rec_name = Some ''Apple'', rec_serving_size = Some ''1 medium'',
     rec_calories = Some 95, rec_macronutrients = Some [(''carbs'', 25)],
     rec_aliases = Some [''red apple'']\<rparr>"

definition toast_record :: "nat json_record" where
  "toast_record = \<lparr>rec_name = Some ''Toast'', rec_serving_size = None,
     rec_calories = None, rec_macronutrients = None, rec_aliases = None\<rparr>"

definition nameless_record :: "nat json_record" where
  "nameless_record = \<lparr>rec_name = None, rec_serving_size = Some ''1 cup'',
     rec_calories = Some 120, rec_macronutrients = None, rec_aliases = None\<rparr>"

definition apple :: "nat FoodItem" where
  "apple = \<lparr>name = ''Apple'', serving_size = ''1 medium'', calories = 95,
     macronutrients = [(''carbs'', 25)], aliases = [''red apple'']\<rparr>"

definition toast :: "nat FoodItem" where
  "toast = \<lparr>name = ''Toast'', serving_size = ''1 serving'', calories = 0,
     macronutrients = [], aliases = []\<rparr>"

definition peanut_butter :: "nat FoodItem" where
  "peanut_butter = \<lparr>name = ''Peanut Butter'', serving_size = ''2 tbsp'', calories = 190,
     macronutrients = [(''protein'', 8)], aliases = [''PB&J'']\<rparr>"

definition example_engine :: "nat FoodRecognitionEngine" where
  "example_engine = \<lparr>reference_items = [apple, toast],
     reference_vectors = encode (map (item_representation str_nat) [apple, toast])\<rparr>"

definition rice :: "nat FoodItem" where
  "rice = \<lparr>name = ''Rice'', serving_size = ''1 cup'', calories = 200,
     macronutrients = [], aliases = []\<rparr>"

definition larger_engine :: "nat FoodRecognitionEngine" where
  "larger_engine = add_custom_item str_nat example_engine rice"

section \<open>The tokenizer\<close>

lemma split_at_separators_nonempty: "split_at_separators p s \<noteq> []"
  by (induction s) (auto split: list.splits)

lemma split_at_separators_first:
  "split_at_separators p s =
     takeWhile p s # (case dropWhile p s of [] \<Rightarrow> [] | c # cs \<Rightarrow> split_at_separators p cs)"
  by (induction s) (auto split: list.splits simp: split_at_separators_nonempty)

text \<open>The scan of \<^verbatim>\<open>re.findall\<close> returns the non-empty pieces between separators.\<close>

lemma findall_class_split:
  "findall_class p s = filter (\<lambda>t. t \<noteq> []) (split_at_separators p s)"
proof (induction p s rule: findall_class.induct)
  case (1 p)
  show ?case by simp
next
  case (2 p c cs)
  show ?case
  proof (cases "p c")
    case True
    have first: "split_at_separators p (c # cs) =
        (c # takeWhile p cs) # (case dropWhile p cs of [] \<Rightarrow> [] | d # ds \<Rightarrow> split_at_separators p ds)"
      using True by (subst split_at_separators_first) simp
    have rest: "filter (\<lambda>t. t \<noteq> []) (split_at_separators p (dropWhile p cs)) =
        filter (\<lambda>t. t \<noteq> []) (case dropWhile p cs of [] \<Rightarrow> [] | d # ds \<Rightarrow> split_at_separators p ds)"
    proof (cases "dropWhile p cs")
      case Nil
      show ?thesis unfolding Nil by simp
    next
      case (Cons d ds)
      then have "\<not> p d"
        by (metis hd_dropWhile list.sel(1) list.distinct(1))
      then show ?thesis using Cons by simp
    qed
    show ?thesis using True 2 first rest by simp
  next
    case False
    then show ?thesis using 2 by simp
  qed
qed

lemma split_at_separators_cong:
  "(\<And>c. c \<in> set s \<Longrightarrow> p c = q c) \<Longrightarrow> split_at_separators p s = split_at_separators q s"
  by (induction s) auto

lemma split_at_separators_pieces:
  "\<forall>t\<in>set (split_at_separators p s). \<forall>c\<in>set t. p c"
  by (induction s) (auto split: list.splits)

lemma cp_apostrophe: "c = CHR 0x27 \<longleftrightarrow> cp c = 39"
proof -
  have "cp (CHR 0x27) = 39" by (simp add: cp_def)
  moreover have "cp c = cp (CHR 0x27) \<longleftrightarrow> c = CHR 0x27"
    unfolding cp_def by (metis of_char_eq_iff)
  ultimately show ?thesis by auto
qed

lemma cp_py_lower_char:
  "cp (py_lower_char c) =
     (if (65 \<le> cp c \<and> cp c \<le> 90) \<or> (192 \<le> cp c \<and> cp c \<le> 214) \<or> (216 \<le> cp c \<and> cp c \<le> 222)
      then cp c + 32 else cp c)"
  by (simp add: py_lower_char_def cp_def)

lemma ascii_token_class:
  "cp c < 128 \<Longrightarrow> TOKEN_RE (py_lower_char c) = spec_token_char (py_lower_char c)"
  unfolding TOKEN_RE_def spec_token_char_def re_word_def cp_apostrophe cp_py_lower_char by auto

lemma tokenize_split:
  "tokenize tx = filter (\<lambda>t. t \<noteq> []) (split_at_separators TOKEN_RE (py_lower tx))"
  by (simp add: tokenize_def findall_class_split)

text \<open>
  C2, as the claim states it, fails: \<^verbatim>\<open>\w\<close> of a \<^verbatim>\<open>str\<close> pattern is not the ASCII class.
  On the four letters of the word cafe written with its acute accent (the last letter
  is U+00E9) the code returns the whole word as its single token, where the claim's
  separators would cut the token \<^verbatim>\<open>"caf"\<close>.
\<close>

theorem tokenize_latin1_counterexample:
  "tokenize [CHR ''c'', CHR ''a'', CHR ''f'', CHR 0xE9] = [[CHR ''c'', CHR ''a'', CHR ''f'', CHR 0xE9]]
   \<and> tokenize_spec [CHR ''c'', CHR ''a'', CHR ''f'', CHR 0xE9] = [''caf'']"
  by (simp add: tokenize_def tokenize_spec_def py_lower_def py_lower_char_def cp_def
      TOKEN_RE_def re_word_def spec_token_char_def)

text \<open>
  C2 (amended): for every text of ASCII characters, the tokenizer lowercases the text and
  returns exactly the maximal non-empty runs of characters of \<^verbatim>\<open>[a-z0-9_']\<close>, in order,
  every other character being a separator that is discarded; the empty text has no
  token, and \<^verbatim>\<open>"Banana, Ripe!"\<close> gives \<^verbatim>\<open>["banana", "ripe"]\<close>.
\<close>

theorem tokenize_ascii:
  assumes "\<forall>c\<in>set tx. cp c < 128"
  shows "tokenize tx = tokenize_spec tx
    \<and> (\<forall>t\<in>set (tokenize tx). t \<noteq> [] \<and> (\<forall>c\<in>set t. spec_token_char c))
    \<and> tokenize [] = []
    \<and> tokenize ''Banana, Ripe!'' = [''banana'', ''ripe'']"
proof (intro conjI)
  have "split_at_separators TOKEN_RE (py_lower tx) = split_at_separators spec_token_char (py_lower tx)"
    by (rule split_at_separators_cong) (use assms in \<open>auto simp: py_lower_def ascii_token_class\<close>)
  then show eq: "tokenize tx = tokenize_spec tx"
    by (simp add: tokenize_split tokenize_spec_def)
  show "\<forall>t\<in>set (tokenize tx). t \<noteq> [] \<and> (\<forall>c\<in>set t. spec_token_char c)"
    unfolding eq tokenize_spec_def using split_at_separators_pieces [of spec_token_char "py_lower tx"] by auto
  show "tokenize [] = []"
    by (simp add: tokenize_def py_lower_def)
  show "tokenize ''Banana, Ripe!'' = [''banana'', ''ripe'']"
    by code_simp
qed

theorem tokenize_ascii_witness:
  "list_all (\<lambda>c. cp c < 128) ''Two eggs, don't!''
   \<and> tokenize ''Two eggs, don't!'' = tokenize_spec ''Two eggs, don't!''
   \<and> tokenize_spec ''Two eggs, don't!'' = [''two'', ''eggs'', ''don't'']"
proof -
  have ascii: "\<forall>c\<in>set ''Two eggs, don't!''. cp c < 128"
    by (simp add: cp_def)
  have "tokenize_spec ''Two eggs, don't!'' = [''two'', ''eggs'', ''don't'']"
    by code_simp
  then show ?thesis
    using ascii tokenize_ascii [OF ascii] by (simp add: list_all_iff)
qed

section \<open>Ranking and truncation\<close>

lemma set_py_sort_reverse: "set (py_sort_reverse key xs) = set xs"
  by (simp add: py_sort_reverse_def)

lemma length_py_sort_reverse: "length (py_sort_reverse key xs) = length xs"
  by (simp add: py_sort_reverse_def)

lemma mset_py_sort_reverse: "mset (py_sort_reverse key xs) = mset xs"
  by (simp add: py_sort_reverse_def)

lemma sorted_py_sort_reverse: "sorted_wrt (\<lambda>a b. key b \<le> key a) (py_sort_reverse key xs)"
proof -
  have "sorted (map key (sort_key key (rev xs)))" by simp
  then have "sorted_wrt (\<lambda>a b. key a \<le> key b) (sort_key key (rev xs))"
    by (simp add: sorted_map)
  then show ?thesis
    by (simp add: py_sort_reverse_def sorted_wrt_rev)
qed

lemma stable_py_sort_reverse:
  "filter (\<lambda>y. key y = k) (py_sort_reverse key xs) = filter (\<lambda>y. key y = k) xs"
proof -
  have "filter (\<lambda>y. key y = k) (py_sort_reverse key xs) = rev (filter (\<lambda>y. key y = k) (sort_key key (rev xs)))"
    by (simp add: py_sort_reverse_def rev_filter)
  also have "\<dots> = rev (filter (\<lambda>y. key y = k) (rev xs))"
    by (simp only: sort_key_stable)
  also have "\<dots> = filter (\<lambda>y. key y = k) xs"
    by (simp add: rev_filter)
  finally show ?thesis .
qed

lemma py_slice_to_prefix: "prefix (py_slice_to xs k) xs"
  by (simp add: py_slice_to_def take_is_prefix)

lemma length_py_slice_to_nonneg: "0 \<le> k \<Longrightarrow> length (py_slice_to xs k) = min (nat k) (length xs)"
  by (simp add: py_slice_to_def)

lemma py_slice_to_all: "int (length xs) \<le> k \<Longrightarrow> py_slice_to xs k = xs"
  by (simp add: py_slice_to_def)

lemma recognise_prefix: "prefix (recognise m e d k) (py_sort_reverse confidence (score_items m e d))"
  by (simp add: recognise_def py_slice_to_prefix)

lemma py_strip_blank: "py_strip d = [] \<longleftrightarrow> (\<forall>c\<in>set d. py_isspace c)"
proof
  assume "py_strip d = []"
  then have all: "\<forall>x\<in>set (dropWhile py_isspace d). py_isspace x"
    by (simp add: py_strip_def)
  have "dropWhile py_isspace d = []"
  proof (rule ccontr)
    assume ne: "dropWhile py_isspace d \<noteq> []"
    then have "\<not> py_isspace (hd (dropWhile py_isspace d))" by (rule hd_dropWhile)
    moreover have "hd (dropWhile py_isspace d) \<in> set (dropWhile py_isspace d)" using ne by simp
    ultimately show False using all by blast
  qed
  then show "\<forall>c\<in>set d. py_isspace c" by simp
next
  assume "\<forall>c\<in>set d. py_isspace c"
  then show "py_strip d = []"
    by (auto simp: py_strip_def dest: set_dropWhileD)
qed

lemma length_score_items:
  "length (score_items m e d) = min (length (reference_items e)) (length (reference_vectors e))"
  by (simp add: score_items_def)

lemma map_item_score_items:
  "length (reference_items e) = length (reference_vectors e) \<Longrightarrow>
   map item (score_items m e d) = reference_items e"
  by (simp add: score_items_def Let_def comp_def case_prod_unfold )

lemma nth_score_items:
  assumes "i < length (reference_items e)" "i < length (reference_vectors e)"
  shows "score_items m e d ! i =
    \<lparr>item = reference_items e ! i,
     confidence = (let c = cosine_similarity (encode [d] ! 0) (reference_vectors e ! i)
                   in if m (reference_items e ! i) d then max c 0.99 else c)\<rparr>"
  using assms by (simp add: score_items_def Let_def)


section \<open>Recognition\<close>

lemma length_encode: "length (encode texts) = length texts"
  by (simp add: encode_def)

lemma example_engine_lengths:
  "length (reference_items example_engine) = 2 \<and> length (reference_vectors example_engine) = 2"
  by (simp add: example_engine_def length_encode)

lemma apple_not_blank: "py_strip ''apple'' \<noteq> []"
  by (simp add: py_strip_blank py_isspace_def cp_def)

text \<open>
  C7: for every description that is empty or consists only of whitespace, and every
  \<open>top_k\<close>, \<open>recognise\<close> returns the empty list: the guard answers before anything
  is encoded or scored, and no error is raised.
\<close>

theorem recognise_blank:
  assumes "\<forall>c\<in>set d. py_isspace c"
  shows "recognise m e d k = []"
  using assms by (simp add: recognise_def py_strip_blank)

theorem recognise_blank_witness:
  "list_all py_isspace ''   '' \<and> recognise FoodItem_matches example_engine ''   '' 3 = []
   \<and> recognise FoodItem_matches example_engine [] 3 = []"
proof -
  have blank: "\<forall>c\<in>set ''   ''. py_isspace c" by (simp add: py_isspace_def cp_def)
  have empty: "\<forall>c\<in>set []. py_isspace c" by simp
  show ?thesis
    using blank recognise_blank [OF blank, of FoodItem_matches example_engine 3]
      recognise_blank [OF empty, of FoodItem_matches example_engine 3]
    by (simp add: list_all_iff)
qed

text \<open>
  C1, as the claim states it, fails for a negative \<open>top_k\<close>: \<^verbatim>\<open>scored[:top_k]\<close> then
  drops entries from the end of the ranking. With two items in the catalog,
  \<^verbatim>\<open>recognise("apple", -1)\<close> returns one result, which is neither empty nor at most
  \<open>top_k\<close> long.
\<close>

theorem recognise_negative_top_k_counterexample:
  "length (recognise FoodItem_matches example_engine ''apple'' (- 1)) = 1"
  by (simp add: recognise_def apple_not_blank py_slice_to_def
      length_py_sort_reverse length_score_items example_engine_lengths)

text \<open>
  C1 (amended): for every non-negative \<open>top_k\<close>, \<open>recognise\<close> returns at most
  \<open>top_k\<close> results, and none if \<open>top_k\<close> is zero; if moreover the description is not
  blank and \<open>top_k\<close> is at least the size of the catalog, it returns the whole ranked
  catalog, with exactly one result for each catalog item.
\<close>

theorem recognise_top_k:
  assumes "0 \<le> top_k"
  shows "int (length (recognise m e d top_k)) \<le> top_k
    \<and> (top_k = 0 \<longrightarrow> recognise m e d top_k = [])
    \<and> (py_strip d \<noteq> [] \<and> length (reference_items e) = length (reference_vectors e)
         \<and> int (length (reference_items e)) \<le> top_k \<longrightarrow>
        recognise m e d top_k = py_sort_reverse confidence (score_items m e d)
        \<and> length (recognise m e d top_k) = length (reference_items e)
        \<and> mset (map item (recognise m e d top_k)) = mset (reference_items e))"
proof (intro conjI impI)
  show "int (length (recognise m e d top_k)) \<le> top_k"
    using assms by (auto simp: recognise_def length_py_slice_to_nonneg)
  show "recognise m e d top_k = []" if "top_k = 0"
    using that by (simp add: recognise_def py_slice_to_def)
next
  assume h: "py_strip d \<noteq> [] \<and> length (reference_items e) = length (reference_vectors e)
         \<and> int (length (reference_items e)) \<le> top_k"
  then have len: "int (length (py_sort_reverse confidence (score_items m e d))) \<le> top_k"
    by (simp add: length_py_sort_reverse length_score_items)
  show all: "recognise m e d top_k = py_sort_reverse confidence (score_items m e d)"
    using h py_slice_to_all [OF len] by (simp add: recognise_def)
  show "length (recognise m e d top_k) = length (reference_items e)"
    unfolding all using h by (simp add: length_py_sort_reverse length_score_items)
  have "mset (map item (py_sort_reverse confidence (score_items m e d))) = mset (map item (score_items m e d))"
    by (simp add: mset_py_sort_reverse)
  then show "mset (map item (recognise m e d top_k)) = mset (reference_items e)"
    unfolding all using h by (simp add: map_item_score_items)
qed

theorem recognise_top_k_witness:
  "(0::int) \<le> 1000 \<and> py_strip ''apple'' \<noteq> []
   \<and> length (reference_items example_engine) = length (reference_vectors example_engine)
   \<and> int (length (reference_items example_engine)) \<le> 1000
   \<and> length (recognise FoodItem_matches example_engine ''apple'' 1000) = 2
   \<and> recognise FoodItem_matches example_engine ''apple'' 0 = []"
proof -
  have k: "(0::int) \<le> 1000" and z: "(0::int) \<le> 0" by simp_all
  have h: "py_strip ''apple'' \<noteq> []
     \<and> length (reference_items example_engine) = length (reference_vectors example_engine)
     \<and> int (length (reference_items example_engine)) \<le> 1000"
    by (simp add: apple_not_blank example_engine_lengths)
  have big: "length (recognise FoodItem_matches example_engine ''apple'' 1000)
      = length (reference_items example_engine)"
    using h recognise_top_k [OF k, of FoodItem_matches example_engine "''apple''"] by blast
  have zero: "recognise FoodItem_matches example_engine ''apple'' 0 = []"
    using recognise_top_k [OF z, of FoodItem_matches example_engine "''apple''"] by blast
  show ?thesis
    using h big zero by (simp add: example_engine_lengths)
qed

lemma score_items_entry:
  assumes "i < length (reference_items e)" "i < length (reference_vectors e)"
  shows "item (score_items m e d ! i) = reference_items e ! i"
    and "confidence (score_items m e d ! i) =
      (let c = cosine_similarity (encode [d] ! 0) (reference_vectors e ! i)
       in if m (reference_items e ! i) d then max c 0.99 else c)"
  using assms by (simp_all add: nth_score_items)

lemma recognise_subset: "set (recognise m e d k) \<subseteq> set (score_items m e d)"
  using set_mono_prefix [OF recognise_prefix [of m e d k]] by (simp add: set_py_sort_reverse)


section \<open>Extending the catalog\<close>

lemma add_custom_item_items:
  "reference_items (add_custom_item fmt e x) = reference_items e @ [x]"
  by (simp add: add_custom_item_def)

lemma add_custom_item_vectors:
  "reference_vectors (add_custom_item fmt e x) =
     reference_vectors e @ [encode [item_representation fmt x] ! 0]"
  by (simp add: add_custom_item_def)

lemma foldl_add_custom_item_items:
  "reference_items (foldl (add_custom_item fmt) e xs) = reference_items e @ xs"
  by (induction xs arbitrary: e) (simp_all add: add_custom_item_items)

lemma foldl_add_custom_item_vectors:
  "reference_vectors (foldl (add_custom_item fmt) e xs) =
     reference_vectors e @ encode (map (item_representation fmt) xs)"
  by (induction xs arbitrary: e) (simp_all add: add_custom_item_vectors encode_def)

lemma matching_item_ranked:
  assumes al: "length (reference_items e) = length (reference_vectors e)"
    and x: "x \<in> set (reference_items e)" and mx: "m x d" and nb: "py_strip d \<noteq> []"
  shows "\<exists>p<length (reference_items e). \<forall>k. int p < k \<longrightarrow>
     p < length (recognise m e d k) \<and> item (recognise m e d k ! p) = x
     \<and> 0.99 \<le> confidence (recognise m e d k ! p)"
proof -
  let ?S = "score_items m e d" and ?R = "py_sort_reverse confidence (score_items m e d)"
  obtain i where i: "i < length (reference_items e)" "reference_items e ! i = x"
    using x by (auto simp: in_set_conv_nth)
  then have j: "i < length (reference_vectors e)" using al by simp
  have si: "item (?S ! i) = x" using score_items_entry(1) [OF i(1) j] i(2) by simp
  have sc: "0.99 \<le> confidence (?S ! i)"
    using score_items_entry(2) [OF i(1) j, of m d] mx i(2) by (simp add: Let_def)
  have "i < length ?S" using i(1) j by (simp add: length_score_items)
  then have "?S ! i \<in> set ?R" by (simp add: set_py_sort_reverse)
  then obtain p where p: "p < length ?R" "?R ! p = ?S ! i" by (auto simp: in_set_conv_nth)
  have pl: "p < length (reference_items e)"
    using p(1) al by (simp add: length_py_sort_reverse length_score_items)
  have "p < length (recognise m e d k) \<and> item (recognise m e d k ! p) = x
     \<and> 0.99 \<le> confidence (recognise m e d k ! p)" if "int p < k" for k
  proof -
    have "recognise m e d k = take (nat k) ?R"
      using that nb by (simp add: recognise_def py_slice_to_def)
    moreover have "p < nat k" using that by simp
    ultimately show ?thesis using p si sc by simp
  qed
  then show ?thesis using pl by blast
qed

text \<open>
  C9 (amended): \<open>add_custom_item\<close> appends the item together with the encoding of its
  representation, the same the constructor computes for the reference items. After it,
  and after any further additions, every \<open>recognise\<close> call whose description is not
  blank and matches the item \<open>x\<close> ranks \<open>x\<close> at some position \<open>p\<close> with confidence at
  least 0.99, and returns it there for every \<open>top_k\<close> greater than \<open>p\<close>.
\<close>

theorem custom_item_recognised:
  assumes "length (reference_items e) = length (reference_vectors e)"
    and "m x d" and "py_strip d \<noteq> []"
  shows "reference_items (add_custom_item fmt e x) = reference_items e @ [x]
    \<and> reference_vectors (add_custom_item fmt e x)
        = reference_vectors e @ encode [item_representation fmt x]
    \<and> (\<exists>p<length (reference_items (foldl (add_custom_item fmt) (add_custom_item fmt e x) later)).
         \<forall>k. int p < k \<longrightarrow>
           p < length (recognise m (foldl (add_custom_item fmt) (add_custom_item fmt e x) later) d k)
           \<and> item (recognise m (foldl (add_custom_item fmt) (add_custom_item fmt e x) later) d k ! p) = x
           \<and> 0.99 \<le> confidence
               (recognise m (foldl (add_custom_item fmt) (add_custom_item fmt e x) later) d k ! p))"
proof (intro conjI)
  let ?e = "foldl (add_custom_item fmt) (add_custom_item fmt e x) later"
  show "reference_items (add_custom_item fmt e x) = reference_items e @ [x]"
    by (rule add_custom_item_items)
  show "reference_vectors (add_custom_item fmt e x)
        = reference_vectors e @ encode [item_representation fmt x]"
    by (simp add: add_custom_item_vectors encode_def)
  have al: "length (reference_items ?e) = length (reference_vectors ?e)"
    using assms(1)
    by (simp add: foldl_add_custom_item_items foldl_add_custom_item_vectors
        add_custom_item_items add_custom_item_vectors length_encode)
  have x: "x \<in> set (reference_items ?e)"
    by (simp add: foldl_add_custom_item_items add_custom_item_items)
  show "\<exists>p<length (reference_items ?e). \<forall>k. int p < k \<longrightarrow>
           p < length (recognise m ?e d k) \<and> item (recognise m ?e d k ! p) = x
           \<and> 0.99 \<le> confidence (recognise m ?e d k ! p)"
    using al x assms(2,3) by (rule matching_item_ranked)
qed

lemma pbj_matches: "FoodItem_matches peanut_butter ''PB&J''"
  by code_simp

lemma pbj_not_blank: "py_strip ''PB&J'' \<noteq> []"
  by (simp add: py_strip_blank py_isspace_def cp_def)

theorem custom_item_recognised_witness:
  "length (reference_items example_engine) = length (reference_vectors example_engine)
   \<and> FoodItem_matches peanut_butter ''PB&J'' \<and> py_strip ''PB&J'' \<noteq> []
   \<and> (\<exists>p<3. p < length (recognise FoodItem_matches (add_custom_item str_nat example_engine peanut_butter) ''PB&J'' 3)
        \<and> item (recognise FoodItem_matches (add_custom_item str_nat example_engine peanut_butter) ''PB&J'' 3 ! p) = peanut_butter
        \<and> 0.99 \<le> confidence (recognise FoodItem_matches (add_custom_item str_nat example_engine peanut_butter) ''PB&J'' 3 ! p))"
proof -
  have al: "length (reference_items example_engine) = length (reference_vectors example_engine)"
    by (simp add: example_engine_lengths)
  note th = custom_item_recognised [where m = FoodItem_matches and x = peanut_butter
      and d = "''PB&J''" and e = example_engine and fmt = str_nat and later = "[]",
      OF al pbj_matches pbj_not_blank]
  then obtain p where p: "p < 3"
    "\<forall>k. int p < k \<longrightarrow>
       p < length (recognise FoodItem_matches (add_custom_item str_nat example_engine peanut_butter) ''PB&J'' k)
       \<and> item (recognise FoodItem_matches (add_custom_item str_nat example_engine peanut_butter) ''PB&J'' k ! p) = peanut_butter
       \<and> 0.99 \<le> confidence (recognise FoodItem_matches (add_custom_item str_nat example_engine peanut_butter) ''PB&J'' k ! p)"
    by (auto simp: add_custom_item_items example_engine_lengths)
  have "int p < 3" using p(1) by simp
  then show ?thesis using al pbj_matches pbj_not_blank p by blast
qed

text \<open>
  C9, as the claim states it, fails on a blank description: a single space is contained
  in the name \<^verbatim>\<open>"Peanut Butter"\<close>, so the description matches the item, and
  \<open>recognise\<close> returns nothing for it, whatever \<open>top_k\<close> is.
\<close>

theorem blank_description_counterexample:
  "FoodItem_matches peanut_butter '' ''
   \<and> recognise FoodItem_matches (add_custom_item str_nat example_engine peanut_butter) '' '' 3 = []"
proof -
  have "FoodItem_matches peanut_butter '' ''" by code_simp
  moreover have "py_strip '' '' = []" by (simp add: py_strip_blank py_isspace_def cp_def)
  ultimately show ?thesis by (simp add: recognise_def)
qed

section \<open>Construction and the catalog invariant\<close>

lemma load_reference_missing_name:
  "\<exists>r\<in>set data. rec_name r = None \<Longrightarrow> load_reference data = Inl (KeyError ''name'')"
proof (induction data)
  case Nil
  then show ?case by simp
next
  case (Cons r data)
  show ?case
  proof (cases "rec_name r")
    case None
    then show ?thesis by simp
  next
    case (Some n)
    then have "\<exists>r\<in>set data. rec_name r = None" using Cons.prems by auto
    then show ?thesis using Cons.IH Some by simp
  qed
qed

lemma load_reference_names:
  "load_reference data = Inr items \<Longrightarrow> map rec_name data = map (\<lambda>it. Some (name it)) items"
  by (induction data arbitrary: items) (auto split: option.splits sum.splits)

lemma example_engine_init:
  "engine_init str_nat (Some [apple_record, toast_record]) = Inr example_engine"
  by (simp add: engine_init_def example_engine_def apple_record_def toast_record_def
      apple_def toast_def)

lemma engine_init_aligned:
  "engine_init fmt reference = Inr e \<Longrightarrow> catalog_aligned fmt e"
  by (auto simp: engine_init_def catalog_aligned_def split: option.splits sum.splits)

lemma add_custom_item_aligned:
  "catalog_aligned fmt e \<Longrightarrow> catalog_aligned fmt (add_custom_item fmt e x)"
  by (simp add: catalog_aligned_def add_custom_item_def encode_def)

lemma foldl_add_custom_item_aligned:
  "catalog_aligned fmt e \<Longrightarrow> catalog_aligned fmt (foldl (add_custom_item fmt) e xs)"
  by (induction xs arbitrary: e) (simp_all add: add_custom_item_aligned)

lemma reachable_aligned:
  "engine_init fmt reference = Inr e0 \<Longrightarrow>
   catalog_aligned fmt (foldl (add_custom_item fmt) e0 added)"
  by (simp add: engine_init_aligned foldl_add_custom_item_aligned)

lemma aligned_nth:
  assumes "catalog_aligned fmt e" "i < length (reference_items e)"
  shows "reference_vectors e ! i = encode [item_representation fmt (reference_items e ! i)] ! 0"
  using assms by (simp add: catalog_aligned_def encode_def)

lemma aligned_length:
  "catalog_aligned fmt e \<Longrightarrow> length (reference_items e) = length (reference_vectors e)"
  by (simp add: catalog_aligned_def length_encode)

text \<open>
  C8: in every engine state that is reachable, that is after a successful construction
  and any sequence of \<open>add_custom_item\<close> calls, the list of items and the list of vectors
  have the same length, and the vector at index \<open>i\<close> is the encoding of the
  representation of the item at index \<open>i\<close>; a further \<open>add_custom_item\<close> call appends
  exactly the item to the one list and its vector to the other.
\<close>

theorem catalog_alignment:
  assumes "engine_init fmt reference = Inr e0"
  shows "length (reference_items (foldl (add_custom_item fmt) e0 added))
           = length (reference_vectors (foldl (add_custom_item fmt) e0 added))
    \<and> (\<forall>i<length (reference_items (foldl (add_custom_item fmt) e0 added)).
          reference_vectors (foldl (add_custom_item fmt) e0 added) ! i
            = encode [item_representation fmt
                (reference_items (foldl (add_custom_item fmt) e0 added) ! i)] ! 0)
    \<and> reference_items (add_custom_item fmt (foldl (add_custom_item fmt) e0 added) x)
         = reference_items (foldl (add_custom_item fmt) e0 added) @ [x]
    \<and> reference_vectors (add_custom_item fmt (foldl (add_custom_item fmt) e0 added) x)
         = reference_vectors (foldl (add_custom_item fmt) e0 added)
             @ [encode [item_representation fmt x] ! 0]"
proof (intro conjI allI impI)
  let ?e = "foldl (add_custom_item fmt) e0 added"
  have al: "catalog_aligned fmt ?e" using assms by (rule reachable_aligned)
  show "length (reference_items ?e) = length (reference_vectors ?e)"
    using al by (rule aligned_length)
  show "reference_vectors ?e ! i = encode [item_representation fmt (reference_items ?e ! i)] ! 0"
    if "i < length (reference_items ?e)" for i
    using al that by (rule aligned_nth)
  show "reference_items (add_custom_item fmt ?e x) = reference_items ?e @ [x]"
    by (rule add_custom_item_items)
  show "reference_vectors (add_custom_item fmt ?e x)
      = reference_vectors ?e @ [encode [item_representation fmt x] ! 0]"
    by (rule add_custom_item_vectors)
qed

theorem catalog_alignment_witness:
  "engine_init str_nat (Some [apple_record, toast_record]) = Inr example_engine
   \<and> reference_items (foldl (add_custom_item str_nat) example_engine [peanut_butter])
       = [apple, toast, peanut_butter]
   \<and> length (reference_vectors (foldl (add_custom_item str_nat) example_engine [peanut_butter])) = 3
   \<and> reference_vectors (foldl (add_custom_item str_nat) example_engine [peanut_butter]) ! 2
       = encode [item_representation str_nat peanut_butter] ! 0"
proof -
  let ?E = "foldl (add_custom_item str_nat) example_engine [peanut_butter]"
  note th = catalog_alignment [OF example_engine_init, of "[peanut_butter]" peanut_butter]
  have items: "reference_items ?E = [apple, toast, peanut_butter]"
    by (simp add: add_custom_item_items example_engine_def)
  have "length (reference_items ?E) = length (reference_vectors ?E)"
    using th by (rule conjunct1)
  then have len: "length (reference_vectors ?E) = 3"
    unfolding items by simp
  have "\<forall>i<length (reference_items ?E).
      reference_vectors ?E ! i = encode [item_representation str_nat (reference_items ?E ! i)] ! 0"
    using th by (rule conjunct1 [OF conjunct2])
  then have "reference_vectors ?E ! 2 = encode [item_representation str_nat peanut_butter] ! 0"
    unfolding items by simp
  then show ?thesis using example_engine_init items len by simp
qed

text \<open>
  C10: if a record of the reference dataset has no \<^verbatim>\<open>name\<close> field, the construction of
  the engine fails with the \<^verbatim>\<open>KeyError\<close> that loading raises, so no engine is produced;
  the four other fields fall back to their defaults when they are absent.
\<close>

theorem missing_name_fails:
  assumes "\<exists>r\<in>set data. rec_name r = None"
  shows "engine_init fmt (Some data) = Inl (KeyError ''name'')
    \<and> (\<forall>e. engine_init fmt (Some data) \<noteq> Inr e)
    \<and> load_reference [\<lparr>rec_name = Some n, rec_serving_size = None, rec_calories = None,
          rec_macronutrients = None, rec_aliases = None\<rparr>]
        = Inr [\<lparr>name = n, serving_size = ''1 serving'', calories = 0,
                macronutrients = [], aliases = []\<rparr>]"
  using load_reference_missing_name [OF assms] by (simp add: engine_init_def)

theorem missing_name_fails_witness:
  "list_ex (\<lambda>r. rec_name r = None) [apple_record, nameless_record]
   \<and> engine_init str_nat (Some [apple_record, nameless_record]) = Inl (KeyError ''name'')"
proof -
  have h: "\<exists>r\<in>set [apple_record, nameless_record]. rec_name r = None"
    by (simp add: nameless_record_def)
  show ?thesis using h missing_name_fails [OF h, of str_nat] by (simp add: list_ex_iff)
qed

section \<open>Counts, normalisation and cosine similarity\<close>

lemma keys_dict_set:
  "map fst (dict_set d k v) = (if k \<in> fst ` set d then map fst d else map fst d @ [k])"
  by (auto simp: dict_set_def case_prod_unfold intro!: map_idI) 

lemma map_of_overwrite:
  "map_of (map (\<lambda>(k', v'). if k' = k then (k', v) else (k', v')) d) x =
     (if x = k \<and> k \<in> fst ` set d then Some v else map_of d x)"
proof (induction d)
  case Nil
  show ?case by simp
next
  case (Cons a d)
  obtain k0 v0 where a: "a = (k0, v0)" by (cases a)
  show ?case using Cons.IH unfolding a by (cases "k0 = k"; cases "x = k") auto
qed

lemma map_of_dict_set: "map_of (dict_set d k v) = (map_of d)(k \<mapsto> v)"
proof (cases "k \<in> fst ` set d")
  case False
  then have "map_of d k = None" by (simp add: map_of_eq_None_iff)
  then show ?thesis using False by (auto simp: dict_set_def fun_eq_iff map_add_def split: option.splits)
next
  case True
  then show ?thesis by (auto simp: dict_set_def fun_eq_iff map_of_overwrite)
qed

lemma foldl_counter:
  "distinct (map fst d) \<Longrightarrow>
   distinct (map fst (foldl (\<lambda>d elem. dict_set d elem (dict_get d elem 0 + 1)) d elems))
   \<and> set (map fst (foldl (\<lambda>d elem. dict_set d elem (dict_get d elem 0 + 1)) d elems)) = set (map fst d) \<union> set elems
   \<and> (\<forall>k. dict_get (foldl (\<lambda>d elem. dict_set d elem (dict_get d elem 0 + 1)) d elems) k 0 = dict_get d k 0 + count_list elems k)"
proof (induction elems arbitrary: d)
  case Nil
  then show ?case by simp
next
  case (Cons x xs)
  let ?d = "dict_set d x (dict_get d x 0 + 1)"
  have d: "distinct (map fst ?d)" using Cons.prems by (auto simp: keys_dict_set)
  have k: "set (map fst ?d) = insert x (set (map fst d))" by (auto simp: keys_dict_set)
  have g: "dict_get ?d k 0 = dict_get d k 0 + (if k = x then 1 else 0)" for k
    by (simp add: dict_get_def map_of_dict_set)
  show ?case using Cons.IH[OF d] k g by (auto simp: add_ac)
qed

lemma Counter_distinct: "distinct (map fst (Counter elems))"
  using foldl_counter[of "[]" elems] by (simp add: Counter_def)

lemma Counter_keys: "set (map fst (Counter elems)) = set elems"
  using foldl_counter[of "[]" elems] by (simp add: Counter_def)

lemma Counter_get: "dict_get (Counter elems) k 0 = count_list elems k"
  using foldl_counter[of "[]" elems] by (simp add: Counter_def dict_get_def)

lemma Counter_entry: "(k, n) \<in> set (Counter elems) \<Longrightarrow> k \<in> set elems \<and> n = count_list elems k"
proof -
  assume a: "(k, n) \<in> set (Counter elems)"
  then have "map_of (Counter elems) k = Some n" using Counter_distinct by simp
  then have "dict_get (Counter elems) k 0 = n" by (simp add: dict_get_def)
  moreover have "k \<in> set elems" using a Counter_keys[of elems] by force
  ultimately show ?thesis by (simp add: Counter_get)
qed

lemma Counter_map_of:
  "map_of (Counter elems) k = (if k \<in> set elems then Some (count_list elems k) else None)"
proof (cases "k \<in> set elems")
  case True
  then have "k \<in> fst ` set (Counter elems)" using Counter_keys[of elems] by simp
  then obtain n where "(k, n) \<in> set (Counter elems)" by auto
  then show ?thesis using Counter_entry[of k n elems] Counter_distinct[of elems] by simp
next
  case False
  then have "k \<notin> fst ` set (Counter elems)" using Counter_keys[of elems] by simp
  then show ?thesis using False by (simp add: map_of_eq_None_iff)
qed

lemma sumsq_nonneg: "0 \<le> sum_list (map (\<lambda>(key, value). value * value) (v::vector))"
  by (rule sum_list_nonneg) auto

lemma sumsq_scaled:
  "sum_list (map (\<lambda>(key, value). value * value) (map (\<lambda>(key, value). (key, value / n)) (v::vector)))
     = sum_list (map (\<lambda>(key, value). value * value) v) / (n * n)"
  by (induction v) (auto simp: add_divide_distrib)

lemma normalise_keys: "map fst (normalise v) = map fst v"
  by (simp add: normalise_def Let_def case_prod_unfold comp_def)

lemma normalise_nonneg:
  assumes "\<forall>(k, w) \<in> set v. 0 \<le> w" "(k, w) \<in> set (normalise v)"
  shows "0 \<le> w"
proof -
  obtain w0 where w0: "(k, w0) \<in> set v"
    "w = w0 / (let s = sqrt (sum_list (map (\<lambda>(key, value). value * value) v)) in if s = 0 then 1 else s)"
    using assms(2) by (auto simp: normalise_def Let_def)
  have "0 \<le> sqrt (sum_list (map (\<lambda>(key, value). value * value) v))"
    using sumsq_nonneg [of v] by simp
  moreover have "0 \<le> w0" using assms(1) w0(1) by auto
  ultimately show ?thesis unfolding w0(2) by (simp add: Let_def)
qed

lemma normalise_sumsq:
  "sum_list (map (\<lambda>(key, value). value * value) (normalise v)) =
     (if sum_list (map (\<lambda>(key, value). value * value) v) = 0 then 0 else 1)"
proof -
  let ?S = "sum_list (map (\<lambda>(key, value). value * value) v)"
  have S0: "0 \<le> ?S" by (rule sumsq_nonneg)
  show ?thesis
  proof (cases "?S = 0")
    case True
    then have "normalise v = map (\<lambda>(key, value). (key, value / 1)) v"
      by (simp add: normalise_def Let_def)
    then show ?thesis using True by (simp only: sumsq_scaled) simp
  next
    case False
    then have nz: "sqrt ?S \<noteq> 0" by simp
    have sq: "sqrt ?S * sqrt ?S = ?S" using S0 by simp
    have "normalise v = map (\<lambda>(key, value). (key, value / sqrt ?S)) v"
      using nz by (simp add: normalise_def Let_def)
    then have "sum_list (map (\<lambda>(key, value). value * value) (normalise v)) = ?S / (sqrt ?S * sqrt ?S)"
      by (simp only: sumsq_scaled)
    then show ?thesis using False by (simp only: sq) simp
  qed
qed

lemma encode_nth: "i < length texts \<Longrightarrow> encode texts ! i = normalise (term_counts (texts ! i))"
  by (simp add: encode_def term_counts_def)

lemma term_counts_pos: "(k, w) \<in> set (term_counts tx) \<Longrightarrow> 1 \<le> w"
proof -
  assume "(k, w) \<in> set (term_counts tx)"
  then obtain n where n: "(k, n) \<in> set (Counter (tokenize tx))" "w = real n"
    by (auto simp: term_counts_def)
  then have "k \<in> set (tokenize tx)" "n = count_list (tokenize tx) k"
    using Counter_entry by blast+
  then have "0 < n" using count_list_0_iff[of "tokenize tx" k] by auto
  then show ?thesis using n by simp
qed

lemma term_counts_sumsq_pos:
  assumes "tokenize tx \<noteq> []"
  shows "0 < sum_list (map (\<lambda>(key, value). value * value) (term_counts tx))"
proof -
  have "set (map fst (term_counts tx)) = set (tokenize tx)"
    using Counter_keys[of "tokenize tx"] by (simp add: term_counts_def comp_def case_prod_unfold)
  then have "term_counts tx \<noteq> []" using assms by auto
  then obtain k w rest where c: "term_counts tx = (k, w) # rest" by (cases "term_counts tx") auto
  then have "1 \<le> w" using term_counts_pos[of k w tx] by simp
  then have "0 < w * w" by simp
  moreover have "0 \<le> sum_list (map (\<lambda>(key, value). value * value) rest)"
    by (rule sum_list_nonneg) auto
  ultimately show ?thesis unfolding c by simp
qed

lemma term_counts_empty: "tokenize tx = [] \<Longrightarrow> term_counts tx = []"
  by (simp add: term_counts_def Counter_def)

lemma encode_vector_props:
  assumes "v \<in> set (encode texts)"
  shows "distinct (map fst v)" and "\<forall>(k, w) \<in> set v. 0 \<le> w"
    and "sum_list (map (\<lambda>(key, value). value * value) v) \<le> 1"
proof -
  obtain tx where v: "v = normalise (term_counts tx)"
    using assms by (auto simp: encode_def term_counts_def)
  have "map fst (term_counts tx) = map fst (Counter (tokenize tx))"
    by (simp add: term_counts_def comp_def case_prod_unfold)
  then show "distinct (map fst v)" unfolding v by (simp add: normalise_keys Counter_distinct)
  have "\<forall>(k, w) \<in> set (term_counts tx). 0 \<le> w" using term_counts_pos by force
  then show "\<forall>(k, w) \<in> set v. 0 \<le> w" unfolding v using normalise_nonneg by blast
  show "sum_list (map (\<lambda>(key, value). value * value) v) \<le> 1"
    unfolding v by (simp add: normalise_sumsq)
qed

lemma sum_keys_sq:
  fixes v :: vector
  assumes "distinct (map fst v)"
  shows "(\<Sum>k\<in>set (map fst v). (the (map_of v k))\<^sup>2) = sum_list (map (\<lambda>(key, value). value * value) v)"
proof -
  have "(\<Sum>k\<in>set (map fst v). (the (map_of v k))\<^sup>2) = sum_list (map (\<lambda>k. (the (map_of v k))\<^sup>2) (map fst v))"
    using assms by (rule sum.distinct_set_conv_list)
  also have "\<dots> = sum_list (map (\<lambda>(key, value). value * value) v)"
    unfolding map_map by (rule arg_cong[where f=sum_list], rule map_cong) (use assms in \<open>auto simp: power2_eq_square\<close>)
  finally show ?thesis .
qed

lemma cosine_bounds:
  assumes da: "distinct (map fst a)" and db: "distinct (map fst b)"
    and na: "\<forall>(k, w) \<in> set a. 0 \<le> w" and nb: "\<forall>(k, w) \<in> set b. 0 \<le> w"
    and sa: "sum_list (map (\<lambda>(key, value). value * value) a) \<le> 1"
    and sb: "sum_list (map (\<lambda>(key, value). value * value) b) \<le> 1"
  shows "0 \<le> cosine_similarity a b \<and> cosine_similarity a b \<le> 1"
proof
  let ?K = "set (map fst a) \<inter> set (map fst b)"
  let ?A = "\<lambda>k. the (map_of a k)" and ?B = "\<lambda>k. the (map_of b k)"
  have A: "0 \<le> ?A k" if "k \<in> set (map fst a)" for k
  proof -
    from that obtain w where "(k, w) \<in> set a" by auto
    then show ?thesis using da na by auto
  qed
  have B: "0 \<le> ?B k" if "k \<in> set (map fst b)" for k
  proof -
    from that obtain w where "(k, w) \<in> set b" by auto
    then show ?thesis using db nb by auto
  qed
  have cs: "cosine_similarity a b = (\<Sum>k\<in>?K. ?A k * ?B k)"
    by (simp add: cosine_similarity_def Let_def)
  show "0 \<le> cosine_similarity a b"
    unfolding cs by (rule sum_nonneg) (use A B in auto)
  have "(\<Sum>k\<in>?K. ?A k * ?B k) \<le> (\<Sum>k\<in>?K. ((?A k)\<^sup>2 + (?B k)\<^sup>2) / 2)"
  proof (rule sum_mono)
    fix k
    have "0 \<le> (?A k - ?B k)\<^sup>2" by simp
    then show "?A k * ?B k \<le> ((?A k)\<^sup>2 + (?B k)\<^sup>2) / 2"
      by (simp add: power2_diff)
  qed
  also have "\<dots> = ((\<Sum>k\<in>?K. (?A k)\<^sup>2) + (\<Sum>k\<in>?K. (?B k)\<^sup>2)) / 2"
    by (simp add: sum.distrib sum_divide_distrib add_divide_distrib)
  also have "\<dots> \<le> ((\<Sum>k\<in>set (map fst a). (?A k)\<^sup>2) + (\<Sum>k\<in>set (map fst b). (?B k)\<^sup>2)) / 2"
  proof -
    have "(\<Sum>k\<in>?K. (?A k)\<^sup>2) \<le> (\<Sum>k\<in>set (map fst a). (?A k)\<^sup>2)"
      by (rule sum_mono2) auto
    moreover have "(\<Sum>k\<in>?K. (?B k)\<^sup>2) \<le> (\<Sum>k\<in>set (map fst b). (?B k)\<^sup>2)"
      by (rule sum_mono2) auto
    ultimately show ?thesis by simp
  qed
  also have "\<dots> \<le> 1"
    using sa sb unfolding sum_keys_sq[OF da] sum_keys_sq[OF db] by simp
  finally show "cosine_similarity a b \<le> 1" unfolding cs .
qed


text \<open>The two lookups of \<^verbatim>\<open>_cosine_similarity\<close> are defined on every common key.\<close>

lemma common_keys_defined:
  assumes "key \<in> set (map fst a) \<inter> set (map fst b)"
  shows "map_of a key \<noteq> None \<and> map_of b key \<noteq> None"
  using assms by (simp add: map_of_eq_None_iff)

text \<open>A worked example: two texts that share one of their two tokens.\<close>

lemma apple_pie_vector: "encode [''Apple pie''] ! 0 = [(''apple'', 1 / sqrt 2), (''pie'', 1 / sqrt 2)]"
proof -
  have "Counter (tokenize ''Apple pie'') = [(''apple'', 1), (''pie'', 1)]" by code_simp
  then show ?thesis by (simp add: encode_def normalise_def)
qed

lemma red_apple_vector: "encode [''red apple''] ! 0 = [(''red'', 1 / sqrt 2), (''apple'', 1 / sqrt 2)]"
proof -
  have "Counter (tokenize ''red apple'') = [(''red'', 1), (''apple'', 1)]" by code_simp
  then show ?thesis by (simp add: encode_def normalise_def)
qed

lemma cosine_example:
  "cosine_similarity (encode [''Apple pie''] ! 0) (encode [''red apple''] ! 0) = 1 / 2"
proof -
  have "set (map fst [(''apple'', 1 / sqrt 2), (''pie'', 1 / sqrt 2 :: real)])
      \<inter> set (map fst [(''red'', 1 / sqrt 2), (''apple'', 1 / sqrt 2 :: real)]) = {''apple''}"
    by auto
  then show ?thesis
    unfolding apple_pie_vector red_apple_vector cosine_similarity_def Let_def by simp
qed

text \<open>
  The ideal values. In exact arithmetic the vector of a text with at least one token
  holds, for each distinct token, the number of its occurrences divided by the Euclidean
  norm of the counts, and the squares of its weights sum to 1; a text without tokens has
  the empty vector. The code computes the weights in double precision, where the sum of
  the squares is 1 up to rounding only.
\<close>

lemma encode_normalised_exact:
  assumes "i < length texts"
  shows "(tokenize (texts ! i) \<noteq> [] \<longrightarrow>
      (let counts = Counter (tokenize (texts ! i));
           norm = sqrt (\<Sum>(key, n)\<leftarrow>counts. real n * real n)
       in norm \<noteq> 0
          \<and> (\<forall>key. map_of counts key =
                (if key \<in> set (tokenize (texts ! i))
                 then Some (count_list (tokenize (texts ! i)) key) else None))
          \<and> encode texts ! i = map (\<lambda>(key, n). (key, real n / norm)) counts
          \<and> (\<Sum>(key, weight)\<leftarrow>encode texts ! i. weight * weight) = 1))
    \<and> (tokenize (texts ! i) = [] \<longrightarrow> encode texts ! i = [])"
proof (intro conjI impI)
  let ?tx = "texts ! i"
  let ?S = "\<Sum>(key, value)\<leftarrow>term_counts ?tx. value * value"
  have enc: "encode texts ! i = normalise (term_counts ?tx)"
    using assms by (rule encode_nth)
  show "encode texts ! i = []" if "tokenize ?tx = []"
    using that by (simp add: enc term_counts_empty normalise_def)
  assume ne: "tokenize ?tx \<noteq> []"
  have S: "?S = (\<Sum>(key, n)\<leftarrow>Counter (tokenize ?tx). real n * real n)"
    by (simp add: term_counts_def comp_def case_prod_unfold)
  have pos: "0 < ?S" using ne by (rule term_counts_sumsq_pos)
  then have nz: "sqrt ?S \<noteq> 0" by simp
  have v: "encode texts ! i = map (\<lambda>(key, n). (key, real n / sqrt ?S)) (Counter (tokenize ?tx))"
    using nz by (simp add: enc normalise_def Let_def term_counts_def comp_def case_prod_unfold)
  have one: "(\<Sum>(key, weight)\<leftarrow>encode texts ! i. weight * weight) = 1"
    unfolding enc using pos by (simp add: normalise_sumsq)
  show "let counts = Counter (tokenize ?tx);
           norm = sqrt (\<Sum>(key, n)\<leftarrow>counts. real n * real n)
       in norm \<noteq> 0
          \<and> (\<forall>key. map_of counts key =
                (if key \<in> set (tokenize ?tx) then Some (count_list (tokenize ?tx) key) else None))
          \<and> encode texts ! i = map (\<lambda>(key, n). (key, real n / norm)) counts
          \<and> (\<Sum>(key, weight)\<leftarrow>encode texts ! i. weight * weight) = 1"
    unfolding Let_def S [symmetric] using nz v one Counter_map_of by blast
qed


lemma score_items_confidence:
  assumes "r \<in> set (score_items m e d)"
  shows "\<exists>v\<in>set (reference_vectors e).
     confidence r = cosine_similarity (encode [d] ! 0) v
     \<or> confidence r = max (cosine_similarity (encode [d] ! 0) v) 0.99"
proof -
  obtain it v where "(it, v) \<in> set (zip (reference_items e) (reference_vectors e))"
    and r: "confidence r = (if m it d then max (cosine_similarity (encode [d] ! 0) v) 0.99
              else cosine_similarity (encode [d] ! 0) v)"
    using assms by (auto simp: score_items_def Let_def)
  then have "v \<in> set (reference_vectors e)" by (auto dest: set_zip_rightD)
  then show ?thesis using r by (auto split: if_splits)
qed

lemma encode_cosine_bounds:
  assumes "a \<in> set (encode xs)" "b \<in> set (encode ys)"
  shows "0 \<le> cosine_similarity a b \<and> cosine_similarity a b \<le> 1"
  using encode_vector_props [OF assms(1)] encode_vector_props [OF assms(2)]
  by (intro cosine_bounds)

text \<open>
  In exact arithmetic the cosine similarity of two vectors that \<open>encode\<close> produces lies
  between 0 and 1, and so does every confidence in a reachable engine state. In double
  precision the upper bound holds up to rounding only.
\<close>

lemma confidence_range_exact:
  assumes "engine_init fmt reference = Inr e0"
    and "r \<in> set (recognise m (foldl (add_custom_item fmt) e0 added) d k)"
    and "a \<in> set (encode xs)" and "b \<in> set (encode ys)"
  shows "0 \<le> cosine_similarity a b \<and> cosine_similarity a b \<le> 1
    \<and> 0 \<le> confidence r \<and> confidence r \<le> 1"
proof -
  let ?e = "foldl (add_custom_item fmt) e0 added"
  have ab: "0 \<le> cosine_similarity a b \<and> cosine_similarity a b \<le> 1"
    using assms(3,4) by (rule encode_cosine_bounds)
  have "r \<in> set (score_items m ?e d)" using assms(2) recognise_subset by blast
  then obtain v where v: "v \<in> set (reference_vectors ?e)"
    and c: "confidence r = cosine_similarity (encode [d] ! 0) v
     \<or> confidence r = max (cosine_similarity (encode [d] ! 0) v) 0.99"
    using score_items_confidence by blast
  have "catalog_aligned fmt ?e" using assms(1) by (rule reachable_aligned)
  then have "v \<in> set (encode (map (item_representation fmt) (reference_items ?e)))"
    using v by (simp add: catalog_aligned_def)
  moreover have "encode [d] ! 0 \<in> set (encode [d])" by (simp add: encode_def)
  ultimately have "0 \<le> cosine_similarity (encode [d] ! 0) v
      \<and> cosine_similarity (encode [d] ! 0) v \<le> 1"
    by (intro encode_cosine_bounds)
  then have "0 \<le> confidence r \<and> confidence r \<le> 1" using c by auto
  then show ?thesis using ab by simp
qed

section \<open>Scores and ranking on a catalog of three items\<close>

text \<open>
  The catalog of \<open>larger_engine\<close> holds Apple, Toast and Rice, in this order. The
  description \<^verbatim>\<open>"cup"\<close> matches none of them and shares its one token with the
  representation \<^verbatim>\<open>"Rice serving 1 cup"\<close> only, whose four tokens have weight 1/2.
\<close>

lemma encode_single: "encode [tx] ! 0 = normalise (term_counts tx)"
  by (simp add: encode_def term_counts_def)

lemma encode_single_keys: "map fst (encode [tx] ! 0) = map fst (Counter (tokenize tx))"
  by (simp add: encode_single normalise_keys term_counts_def comp_def case_prod_unfold)

lemma cosine_disjoint:
  "set (map fst a) \<inter> set (map fst b) = {} \<Longrightarrow> cosine_similarity a b = 0"
  by (simp add: cosine_similarity_def Let_def)

lemma cup_vector: "encode [''cup''] ! 0 = [(''cup'', 1)]"
proof -
  have "Counter (tokenize ''cup'') = [(''cup'', 1)]" by code_simp
  then show ?thesis by (simp add: encode_def normalise_def)
qed

lemma apple_keys:
  "map fst (encode [item_representation str_nat apple] ! 0)
     = [''apple'', ''serving'', ''1'', ''medium'', ''red'', ''carbs'', ''25'']"
proof -
  have "map fst (Counter (tokenize (item_representation str_nat apple)))
     = [''apple'', ''serving'', ''1'', ''medium'', ''red'', ''carbs'', ''25'']" by code_simp
  then show ?thesis by (simp only: encode_single_keys)
qed

lemma toast_keys:
  "map fst (encode [item_representation str_nat toast] ! 0) = [''toast'', ''serving'', ''1'']"
proof -
  have "map fst (Counter (tokenize (item_representation str_nat toast)))
     = [''toast'', ''serving'', ''1'']" by code_simp
  then show ?thesis by (simp only: encode_single_keys)
qed

lemma rice_vector:
  "encode [item_representation str_nat rice] ! 0
     = [(''rice'', 1 / 2), (''serving'', 1 / 2), (''1'', 1 / 2), (''cup'', 1 / 2)]"
proof -
  have "Counter (tokenize (item_representation str_nat rice))
     = [(''rice'', 1), (''serving'', 1), (''1'', 1), (''cup'', 1)]" by code_simp
  then show ?thesis by (simp add: encode_def normalise_def)
qed

lemma larger_engine_items: "reference_items larger_engine = [apple, toast, rice]"
  by (simp add: larger_engine_def add_custom_item_def example_engine_def)

lemma larger_engine_vectors:
  "reference_vectors larger_engine =
     [encode [item_representation str_nat apple] ! 0,
      encode [item_representation str_nat toast] ! 0,
      encode [item_representation str_nat rice] ! 0]"
  by (simp add: larger_engine_def add_custom_item_def example_engine_def encode_def)

lemma cup_matches_nothing:
  "\<not> FoodItem_matches apple ''cup''" "\<not> FoodItem_matches toast ''cup''"
  "\<not> FoodItem_matches rice ''cup''"
  by code_simp+

lemma cup_cosines:
  "cosine_similarity (encode [''cup''] ! 0) (encode [item_representation str_nat apple] ! 0) = 0"
  "cosine_similarity (encode [''cup''] ! 0) (encode [item_representation str_nat toast] ! 0) = 0"
  "cosine_similarity (encode [''cup''] ! 0) (encode [item_representation str_nat rice] ! 0) = 1 / 2"
proof -
  show "cosine_similarity (encode [''cup''] ! 0) (encode [item_representation str_nat apple] ! 0) = 0"
    by (rule cosine_disjoint) (simp add: apple_keys cup_vector)
  show "cosine_similarity (encode [''cup''] ! 0) (encode [item_representation str_nat toast] ! 0) = 0"
    by (rule cosine_disjoint) (simp add: toast_keys cup_vector)
  have "set (map fst [(''cup'', 1::real)])
      \<inter> set (map fst [(''rice'', 1 / 2), (''serving'', 1 / 2), (''1'', 1 / 2), (''cup'', 1 / 2 :: real)])
      = {''cup''}" by auto
  then show "cosine_similarity (encode [''cup''] ! 0) (encode [item_representation str_nat rice] ! 0) = 1 / 2"
    unfolding cup_vector rice_vector cosine_similarity_def Let_def by simp
qed

lemma cup_scores:
  "score_items FoodItem_matches larger_engine ''cup'' =
     [\<lparr>item = apple, confidence = 0\<rparr>, \<lparr>item = toast, confidence = 0\<rparr>,
      \<lparr>item = rice, confidence = 1 / 2\<rparr>]"
  by (simp add: score_items_def Let_def larger_engine_items larger_engine_vectors
      cup_cosines cup_matches_nothing)

lemma cup_not_blank: "py_strip ''cup'' \<noteq> []"
  by (simp add: py_strip_blank py_isspace_def cp_def)

lemma cup_ranking:
  "recognise FoodItem_matches larger_engine ''cup'' 3 =
     [\<lparr>item = rice, confidence = 1 / 2\<rparr>, \<lparr>item = apple, confidence = 0\<rparr>,
      \<lparr>item = toast, confidence = 0\<rparr>]"
  "recognise FoodItem_matches larger_engine ''cup'' 2 =
     [\<lparr>item = rice, confidence = 1 / 2\<rparr>, \<lparr>item = apple, confidence = 0\<rparr>]"
  by (simp_all add: recognise_def cup_not_blank cup_scores py_sort_reverse_def py_slice_to_def)

text \<open>
  C5: for every description and every positive \<open>top_k\<close>, the results of \<open>recognise\<close>
  are in descending order of confidence; the results of any one confidence are the
  first such entries of the catalog, in catalog order (the sort is stable); there are at
  most \<open>top_k\<close> of them. They are scored entries of the catalog, each returned at most
  as often as it was scored; and for a description that is not blank there are as many
  as \<open>top_k\<close> and the catalog allow, and no entry left out has a greater confidence
  than an entry returned.
\<close>

theorem recognise_ranked:
  assumes "0 < top_k"
  shows "sorted_wrt (\<lambda>a b. confidence b \<le> confidence a) (recognise m e d top_k)
       \<and> (\<forall>c. prefix (filter (\<lambda>r. confidence r = c) (recognise m e d top_k))
                       (filter (\<lambda>r. confidence r = c) (score_items m e d)))
       \<and> int (length (recognise m e d top_k)) \<le> top_k
       \<and> mset (recognise m e d top_k) \<subseteq># mset (score_items m e d)
       \<and> (py_strip d \<noteq> [] \<longrightarrow>
            length (recognise m e d top_k)
              = min (nat top_k) (min (length (reference_items e)) (length (reference_vectors e)))
            \<and> (\<forall>r\<in>set (recognise m e d top_k).
                 \<forall>s\<in>#(mset (score_items m e d) - mset (recognise m e d top_k)).
                   confidence s \<le> confidence r))"
proof (intro conjI allI impI)
  let ?S = "score_items m e d"
  let ?R = "py_sort_reverse confidence ?S"
  obtain zs where R: "?R = recognise m e d top_k @ zs"
    using recognise_prefix[of m e d top_k] by (auto simp: prefix_def)
  have sorted: "sorted_wrt (\<lambda>a b. confidence b \<le> confidence a) ?R"
    by (rule sorted_py_sort_reverse)
  then show "sorted_wrt (\<lambda>a b. confidence b \<le> confidence a) (recognise m e d top_k)"
    unfolding R by (simp add: sorted_wrt_append)
  show "prefix (filter (\<lambda>r. confidence r = c) (recognise m e d top_k))
                       (filter (\<lambda>r. confidence r = c) ?S)" for c
  proof -
    have "filter (\<lambda>r. confidence r = c) ?S = filter (\<lambda>r. confidence r = c) ?R"
      by (simp only: stable_py_sort_reverse)
    also have "\<dots> = filter (\<lambda>r. confidence r = c) (recognise m e d top_k) @ filter (\<lambda>r. confidence r = c) zs"
      unfolding R by simp
    finally show ?thesis by (simp add: prefix_def)
  qed
  show "int (length (recognise m e d top_k)) \<le> top_k"
    using assms by (auto simp: recognise_def length_py_slice_to_nonneg)
  have ms: "mset ?S = mset (recognise m e d top_k) + mset zs"
    using arg_cong [OF R, of mset] by (simp add: mset_py_sort_reverse)
  show "mset (recognise m e d top_k) \<subseteq># mset ?S"
    unfolding ms by simp
  show "length (recognise m e d top_k)
      = min (nat top_k) (min (length (reference_items e)) (length (reference_vectors e)))"
    if "py_strip d \<noteq> []"
    using that assms
    by (simp add: recognise_def length_py_slice_to_nonneg length_py_sort_reverse length_score_items)
  show "\<forall>r\<in>set (recognise m e d top_k).
      \<forall>s\<in>#(mset ?S - mset (recognise m e d top_k)). confidence s \<le> confidence r"
  proof (intro ballI)
    fix r s
    assume r: "r \<in> set (recognise m e d top_k)"
      and s: "s \<in># mset ?S - mset (recognise m e d top_k)"
    from s have "s \<in> set zs" unfolding ms by simp
    then show "confidence s \<le> confidence r"
      using sorted r unfolding R by (simp add: sorted_wrt_append)
  qed
qed

theorem recognise_ranked_witness:
  "(0::int) < 2 \<and> py_strip ''cup'' \<noteq> []
   \<and> score_items FoodItem_matches larger_engine ''cup'' =
       [\<lparr>item = apple, confidence = 0\<rparr>, \<lparr>item = toast, confidence = 0\<rparr>,
        \<lparr>item = rice, confidence = 1 / 2\<rparr>]
   \<and> recognise FoodItem_matches larger_engine ''cup'' 2 =
       [\<lparr>item = rice, confidence = 1 / 2\<rparr>, \<lparr>item = apple, confidence = 0\<rparr>]
   \<and> sorted_wrt (\<lambda>a b. confidence b \<le> confidence a)
        (recognise FoodItem_matches larger_engine ''cup'' 2)
   \<and> mset (recognise FoodItem_matches larger_engine ''cup'' 2)
        \<subseteq># mset (score_items FoodItem_matches larger_engine ''cup'')
   \<and> length (recognise FoodItem_matches larger_engine ''cup'' 2) = 2"
proof -
  have pos: "(0::int) < 2" by simp
  note th = recognise_ranked [OF pos, of FoodItem_matches larger_engine "''cup''"]
  have sorted: "sorted_wrt (\<lambda>a b. confidence b \<le> confidence a)
        (recognise FoodItem_matches larger_engine ''cup'' 2)"
    using th by (rule conjunct1)
  have sub: "mset (recognise FoodItem_matches larger_engine ''cup'' 2)
        \<subseteq># mset (score_items FoodItem_matches larger_engine ''cup'')"
    using th by blast
  have "length (recognise FoodItem_matches larger_engine ''cup'' 2)
      = min (nat 2) (min (length (reference_items larger_engine)) (length (reference_vectors larger_engine)))"
    using th cup_not_blank by blast
  then have len: "length (recognise FoodItem_matches larger_engine ''cup'' 2) = 2"
    by (simp add: larger_engine_items larger_engine_vectors)
  show ?thesis
    using pos cup_not_blank cup_scores cup_ranking(2) sorted sub len by blast
qed






end
